theory Spec2Isabelle
  imports Main "HOL-Library.Word"
begin

section \<open>Data model\<close>

text \<open>
  The Go package keeps every \<^verbatim>\<open>Instance\<close> and every \<^verbatim>\<open>InstanceList\<close> behind a pointer and
  links instances into rings through their \<^verbatim>\<open>next\<close> and \<^verbatim>\<open>prev\<close> fields (\<open>next_i\<close>, \<open>prev_i\<close>; \<open>next\<close> is a keyword), so the model has an explicit
  store: an address is a natural number, a pointer is an \<open>addr option\<close> (\<open>None\<close> is \<^verbatim>\<open>nil\<close>).
  Of \<^verbatim>\<open>ecs.InstanceAttributesType\<close> and \<^verbatim>\<open>ecs.DiskItemType\<close> only the fields the package reads
  are kept.
\<close>

type_synonym addr = nat
type_synonym laddr = nat

record InstanceAttributesType =
  InstanceId :: string
  Status :: string
  ImageId :: string

record DiskItemType =
  DiskId :: string
  DiskInstanceId :: string

record Instance =
  Attrs :: InstanceAttributesType
  Disk :: DiskItemType
  next_i :: "addr option"
  prev_i :: "addr option"
  list_i :: "laddr option"

record InstanceList =
  locked :: bool
  root :: "addr option"
  size_l :: int

text \<open>The zero values that \<^verbatim>\<open>new(Instance)\<close> and \<^verbatim>\<open>new(InstanceList)\<close> produce.\<close>

definition zero_Instance :: Instance where
  "zero_Instance =
     \<lparr>Attrs = \<lparr>InstanceId = [], Status = [], ImageId = []\<rparr>,
      Disk = \<lparr>DiskId = [], DiskInstanceId = []\<rparr>,
      next_i = None, prev_i = None, list_i = None\<rparr>"

definition zero_InstanceList :: InstanceList where
  "zero_InstanceList = \<lparr>locked = False, root = None, size_l = 0\<rparr>"

subsection \<open>The provider\<close>

text \<open>
  The cloud client is outside the package. A call (the constructors carry the names of the
  \<^verbatim>\<open>ecs.Client\<close> methods) is recorded in a trace; what the provider
  answers is a function of the calls made so far and of the call, which covers every
  deterministic provider. Region, zone, security group, tag and page size are process-wide
  constants of the package and are left out of the calls. \<open>next_page\<close> is the result of
  \<^verbatim>\<open>pagination.NextPage()\<close> on the returned pagination.
\<close>

datatype error = Error string

datatype call =
    EcsRemoveTags string
  | EcsAddTags string
  | EcsReInitDisk string
  | EcsStartInstance string
  | EcsStopInstance string bool
  | EcsDescribeDisks nat
  | EcsDescribeInstances nat
  | EcsDescribeResourceByTags nat

record response =
  err :: "error option"
  disks_r :: "DiskItemType list"
  instances_r :: "InstanceAttributesType list"
  resources_r :: "string list"
  next_page :: "nat option"

type_synonym provider = "call list \<Rightarrow> call \<Rightarrow> response"

subsection \<open>The store\<close>

record world =
  heap :: "addr \<Rightarrow> Instance"
  fresh :: addr
  lists :: "laddr \<Rightarrow> InstanceList"
  fresh_l :: laddr
  trace :: "call list"

definition upd :: "world \<Rightarrow> addr \<Rightarrow> (Instance \<Rightarrow> Instance) \<Rightarrow> world" where
  "upd w a f = w\<lparr>heap := (heap w)(a := f (heap w a))\<rparr>"

definition updl :: "world \<Rightarrow> laddr \<Rightarrow> (InstanceList \<Rightarrow> InstanceList) \<Rightarrow> world" where
  "updl w l f = w\<lparr>lists := (lists w)(l := f (lists w l))\<rparr>"

definition new_Instance :: "world \<Rightarrow> world \<times> addr" where
  "new_Instance w =
     (w\<lparr>heap := (heap w)(fresh w := zero_Instance), fresh := Suc (fresh w)\<rparr>, fresh w)"

definition new_InstanceList :: "world \<Rightarrow> world \<times> laddr" where
  "new_InstanceList w =
     (w\<lparr>lists := (lists w)(fresh_l w := zero_InstanceList), fresh_l := Suc (fresh_l w)\<rparr>,
      fresh_l w)"

definition do_call :: "provider \<Rightarrow> world \<Rightarrow> call \<Rightarrow> response \<times> world" where
  "do_call P w c = (P (trace w) c, w\<lparr>trace := trace w @ [c]\<rparr>)"

text \<open>
  A run of a function either returns a value, panics (a \<^verbatim>\<open>nil\<close> pointer is dereferenced), or
  never returns (a scan that does not come back to the sentinel, or \<^verbatim>\<open>Lock\<close> on a mutex that
  is already held): \<open>Some (Inr v)\<close>, \<open>Some (Inl NilDereference)\<close> and \<open>None\<close>.
\<close>

datatype panic = NilDereference

type_synonym 'a res = "(panic + 'a) option"

definition ret :: "'a \<Rightarrow> 'a res" where
  "ret x = Some (Inr x)"

definition raise :: "'a res" where
  "raise = Some (Inl NilDereference)"

definition bnd :: "'a res \<Rightarrow> ('a \<Rightarrow> 'b res) \<Rightarrow> 'b res" where
  "bnd m f = (case m of None \<Rightarrow> None | Some (Inl e) \<Rightarrow> Some (Inl e) | Some (Inr x) \<Rightarrow> f x)"

definition deref :: "'p option \<Rightarrow> ('p \<Rightarrow> 'b res) \<Rightarrow> 'b res" where
  "deref p f = (case p of None \<Rightarrow> raise | Some a \<Rightarrow> f a)"

section \<open>Instance lifecycle operations (instance.go)\<close>

definition Start :: "provider \<Rightarrow> world \<Rightarrow> addr \<Rightarrow> world \<times> error option" where
  "Start P w a =
     (if Status (Attrs (heap w a)) \<noteq> ''Stopped''
      then (w, Some (Error ''Not stopped instance not support start action''))
      else
        let (r1, w1) = do_call P w (EcsRemoveTags (InstanceId (Attrs (heap w a))));
            (r2, w2) = do_call P w1 (EcsReInitDisk (DiskId (Disk (heap w1 a))))
        in case err r2 of
             Some e \<Rightarrow> (w2, Some e)
           | None \<Rightarrow>
               let (r3, w3) = do_call P w2 (EcsStartInstance (InstanceId (Attrs (heap w2 a))))
               in (w3, err r3))"

definition Stop :: "provider \<Rightarrow> world \<Rightarrow> addr \<Rightarrow> world \<times> error option" where
  "Stop P w a =
     (if Status (Attrs (heap w a)) \<noteq> ''Running''
      then (w, Some (Error ''Not running instance not support stop action''))
      else
        let (r1, w1) = do_call P w (EcsRemoveTags (InstanceId (Attrs (heap w a))));
            (r2, w2) = do_call P w1 (EcsStopInstance (InstanceId (Attrs (heap w1 a))) True)
        in (w2, err r2))"

definition SetUsedTag :: "provider \<Rightarrow> world \<Rightarrow> addr \<Rightarrow> world \<times> error option" where
  "SetUsedTag P w a =
     (let (r, w1) = do_call P w (EcsAddTags (InstanceId (Attrs (heap w a)))) in (w1, err r))"

section \<open>Buckets (InstanceList, instance.go)\<close>

text \<open>
  \<^verbatim>\<open>sync.Mutex\<close> is not reentrant: \<^verbatim>\<open>Lock\<close> on a mutex that is held blocks. Only one
  thread of control is modelled, so a blocked \<^verbatim>\<open>Lock\<close> never returns. The deferred
  \<^verbatim>\<open>Unlock\<close> is written at each return; after a panic the run has no result.
\<close>

definition Lock :: "world \<Rightarrow> laddr \<Rightarrow> world res" where
  "Lock w l =
     (if locked (lists w l) then None else ret (updl w l (\<lambda>b. b\<lparr>locked := True\<rparr>)))"

definition Unlock :: "world \<Rightarrow> laddr \<Rightarrow> world" where
  "Unlock w l = updl w l (\<lambda>b. b\<lparr>locked := False\<rparr>)"

definition Init :: "world \<Rightarrow> laddr \<Rightarrow> world res" where
  "Init w l =
     bnd (Lock w l) (\<lambda>w1.
       let (w2, r) = new_Instance w1;
           w3 = updl w2 l (\<lambda>b. b\<lparr>root := Some r\<rparr>);
           w4 = upd w3 r (\<lambda>i. i\<lparr>next_i := Some r\<rparr>);
           w5 = upd w4 r (\<lambda>i. i\<lparr>prev_i := Some r\<rparr>);
           w6 = updl w5 l (\<lambda>b. b\<lparr>size_l := 0\<rparr>)
       in ret (Unlock w6 l))"

definition NewInstanceList :: "world \<Rightarrow> (world \<times> laddr) res" where
  "NewInstanceList w =
     (let (w1, l) = new_InstanceList w in bnd (Init w1 l) (\<lambda>w2. ret (w2, l)))"

definition Len :: "world \<Rightarrow> laddr \<Rightarrow> int" where
  "Len w l = size_l (lists w l)"

definition lazyInit :: "world \<Rightarrow> laddr \<Rightarrow> world res" where
  "lazyInit w l =
     bnd (Lock w l) (\<lambda>w1.
       deref (root (lists w1 l)) (\<lambda>r.
         if next_i (heap w1 r) = None
         then bnd (Init w1 l) (\<lambda>w2. ret (Unlock w2 l))
         else ret (Unlock w1 l)))"

definition insert_l :: "world \<Rightarrow> laddr \<Rightarrow> addr \<Rightarrow> addr option \<Rightarrow> (world \<times> addr) res" where
  "insert_l w l e at =
     bnd (Lock w l) (\<lambda>w1.
       deref at (\<lambda>a.
         let n = next_i (heap w1 a);
             w2 = upd w1 a (\<lambda>i. i\<lparr>next_i := Some e\<rparr>);
             w3 = upd w2 e (\<lambda>i. i\<lparr>prev_i := Some a\<rparr>);
             w4 = upd w3 e (\<lambda>i. i\<lparr>next_i := n\<rparr>)
         in deref n (\<lambda>n'.
              let w5 = upd w4 n' (\<lambda>i. i\<lparr>prev_i := Some e\<rparr>);
                  w6 = upd w5 e (\<lambda>i. i\<lparr>list_i := Some l\<rparr>);
                  w7 = updl w6 l (\<lambda>b. b\<lparr>size_l := size_l b + 1\<rparr>)
              in ret (Unlock w7 l, e))))"

text \<open>
  The duplicate scan of \<^verbatim>\<open>Push\<close>: \<open>n\<close> is the loop variable, \<open>r\<close> the sentinel. The result
  says whether the loop left through \<^verbatim>\<open>return nil\<close>.
\<close>

partial_function (option) Push_loop :: "world \<Rightarrow> addr \<Rightarrow> addr option \<Rightarrow> addr \<Rightarrow> bool res" where
  "Push_loop w r n e =
     (case n of
        None \<Rightarrow> raise
      | Some a \<Rightarrow>
          if a = r then ret False
          else if InstanceId (Attrs (heap w a)) = InstanceId (Attrs (heap w e)) then ret True
          else Push_loop w r (next_i (heap w a)) e)"

definition Push :: "world \<Rightarrow> laddr \<Rightarrow> addr \<Rightarrow> (world \<times> addr option) res" where
  "Push w l e =
     bnd (lazyInit w l) (\<lambda>w1.
       deref (root (lists w1 l)) (\<lambda>r.
         bnd (Push_loop w1 r (next_i (heap w1 r)) e) (\<lambda>dup.
           if dup then ret (w1, None)
           else bnd (insert_l w1 l e (prev_i (heap w1 r))) (\<lambda>(w2, e'). ret (w2, Some e')))))"

definition Remove :: "world \<Rightarrow> laddr \<Rightarrow> addr \<Rightarrow> (world \<times> addr) res" where
  "Remove w l e =
     bnd (Lock w l) (\<lambda>w1.
       deref (prev_i (heap w1 e)) (\<lambda>p.
         let w2 = upd w1 p (\<lambda>i. i\<lparr>next_i := next_i (heap w1 e)\<rparr>)
         in deref (next_i (heap w2 e)) (\<lambda>n.
              let w3 = upd w2 n (\<lambda>i. i\<lparr>prev_i := prev_i (heap w2 e)\<rparr>);
                  w4 = upd w3 e (\<lambda>i. i\<lparr>next_i := None\<rparr>);
                  w5 = upd w4 e (\<lambda>i. i\<lparr>prev_i := None\<rparr>);
                  w6 = upd w5 e (\<lambda>i. i\<lparr>list_i := None\<rparr>);
                  w7 = updl w6 l (\<lambda>b. b\<lparr>size_l := size_l b - 1\<rparr>)
              in ret (Unlock w7 l, e))))"

partial_function (option) Find_loop ::
  "world \<Rightarrow> laddr \<Rightarrow> addr \<Rightarrow> addr option \<Rightarrow> string \<Rightarrow> (world \<times> addr option) res" where
  "Find_loop w l r n imageId =
     (case n of
        None \<Rightarrow> raise
      | Some a \<Rightarrow>
          if a = r then ret (w, None)
          else if ImageId (Attrs (heap w a)) = imageId
          then bnd (Remove w l a) (\<lambda>(w', e). ret (w', Some e))
          else Find_loop w l r (next_i (heap w a)) imageId)"

definition Find :: "world \<Rightarrow> laddr \<Rightarrow> string \<Rightarrow> (world \<times> addr option) res" where
  "Find w l imageId =
     deref (root (lists w l)) (\<lambda>r. Find_loop w l r (next_i (heap w r)) imageId)"

section \<open>Cluster\<close>

text \<open>
  A \<^verbatim>\<open>Cluster\<close> is only built by \<^verbatim>\<open>NewCluster\<close>, which allocates the three lists and both
  maps, so these fields are never \<^verbatim>\<open>nil\<close>. The delayer and the stop channel serve the
  background loop only and are left out of the record.
\<close>

record Cluster =
  starting :: laddr
  avavilable :: laddr
  stopping :: laddr
  used :: "string \<rightharpoonup> addr"
  disks :: "DiskItemType list"
  instances :: "string \<rightharpoonup> addr"

definition Cluster_Find :: "Cluster \<Rightarrow> string \<Rightarrow> addr option" where
  "Cluster_Find c instanceId = instances c instanceId"

definition GetInstance ::
  "provider \<Rightarrow> world \<Rightarrow> Cluster \<Rightarrow> string \<Rightarrow> (world \<times> Cluster \<times> addr option) res" where
  "GetInstance P w c imageId =
     bnd (Find w (avavilable c) imageId) (\<lambda>(w1, found).
       case found of
         None \<Rightarrow> ret (w1, c, None)
       | Some a \<Rightarrow>
           (let (w2, e) = SetUsedTag P w1 a
            in (case e of
                  Some _ \<Rightarrow> bnd (Push w2 (avavilable c) a) (\<lambda>(w3, _). ret (w3, c, None))
                | None \<Rightarrow>
                    ret (w2, c\<lparr>used := (used c)(InstanceId (Attrs (heap w2 a)) \<mapsto> a)\<rparr>,
                         Some a))))"

text \<open>
  \<^verbatim>\<open>StopInstance\<close> up to its \<^verbatim>\<open>return\<close>. The goroutine it starts before returning (sleep,
  set the status to Stopped, \<^verbatim>\<open>Start\<close>, restore the status on failure) runs concurrently
  and is not part of the call.
\<close>

definition StopInstance ::
  "provider \<Rightarrow> world \<Rightarrow> Cluster \<Rightarrow> string \<Rightarrow> world \<times> Cluster \<times> error option" where
  "StopInstance P w c instanceId =
     (case instances c instanceId of
        None \<Rightarrow> (w, c, Some (Error ''not found instance''))
      | Some _ \<Rightarrow>
          (case used c instanceId of
             None \<Rightarrow> (w, c, Some (Error ''not used instance can not been stop''))
           | Some a \<Rightarrow>
               (let (w1, e) = Stop P w a
                in (case e of
                      Some er \<Rightarrow> (w1, c, Some er)
                    | None \<Rightarrow>
                        (w1, c\<lparr>used := (used c)(InstanceId (Attrs (heap w1 a)) := None)\<rparr>,
                         None)))))"

text \<open>
  The three listings are paged by the same loop: ask for the next page while
  \<^verbatim>\<open>NextPage()\<close> is not \<^verbatim>\<open>nil\<close>, append what came back, return at the first error.
  \<open>mk\<close> builds the call for a page number and \<open>items\<close> reads the listing off the response.
\<close>

partial_function (option) page_loop ::
  "provider \<Rightarrow> (nat \<Rightarrow> call) \<Rightarrow> (response \<Rightarrow> 'a list) \<Rightarrow> world \<Rightarrow> 'a list \<Rightarrow> nat option
     \<Rightarrow> (world \<times> 'a list \<times> error option) res" where
  "page_loop P mk items w acc nextPage =
     (case nextPage of
        None \<Rightarrow> ret (w, acc, None)
      | Some pg \<Rightarrow>
          (case do_call P w (mk pg) of
             (r, w1) \<Rightarrow>
               (case err r of
                  Some e \<Rightarrow> ret (w1, acc, Some e)
                | None \<Rightarrow> page_loop P mk items w1 (acc @ items r) (next_page r))))"

definition RefreshDisks ::
  "provider \<Rightarrow> world \<Rightarrow> Cluster \<Rightarrow> (world \<times> Cluster \<times> error option) res" where
  "RefreshDisks P w c =
     (let (r, w1) = do_call P w (EcsDescribeDisks 1)
      in case err r of
           Some e \<Rightarrow> ret (w1, c, Some e)
         | None \<Rightarrow>
             bnd (page_loop P EcsDescribeDisks disks_r w1 (disks_r r) (next_page r))
               (\<lambda>(w2, ds, e). ret (w2, c\<lparr>disks := ds\<rparr>, e)))"

text \<open>A \<^verbatim>\<open>range\<close> loop over a slice, with the state threaded through the body.\<close>

fun foreach :: "('s \<Rightarrow> 'a \<Rightarrow> 's res) \<Rightarrow> 's \<Rightarrow> 'a list \<Rightarrow> 's res" where
  "foreach f s [] = ret s"
| "foreach f s (x # xs) = bnd (f s x) (\<lambda>s'. foreach f s' xs)"

text \<open>The body of the loop over the tag listing (\<open>rid\<close> is \<^verbatim>\<open>resource.ResourceId\<close>).\<close>

definition reserve_step :: "world \<times> Cluster \<Rightarrow> string \<Rightarrow> (world \<times> Cluster) res" where
  "reserve_step wc rid =
     (let (w, c) = wc
      in case instances c rid of
           None \<Rightarrow>
             let (w1, a) = new_Instance w
             in ret (w1, c\<lparr>instances := (instances c)(rid \<mapsto> a), used := (used c)(rid \<mapsto> a)\<rparr>)
         | Some a \<Rightarrow>
             bnd (case list_i (heap w a) of
                    None \<Rightarrow> ret w
                  | Some l \<Rightarrow> bnd (Remove w l a) (\<lambda>(w1, _). ret w1))
               (\<lambda>w1. ret (w1, c\<lparr>used := (used c)(rid \<mapsto> a)\<rparr>)))"

text \<open>
  The source writes the same three lines for each of the three buckets: push when the
  instance is in no list, remove and push when it is in another list, nothing when it is
  already in the target.
\<close>

definition place :: "world \<Rightarrow> addr \<Rightarrow> laddr \<Rightarrow> world res" where
  "place w a target =
     (case list_i (heap w a) of
        None \<Rightarrow> bnd (Push w target a) (\<lambda>(w1, _). ret w1)
      | Some l \<Rightarrow>
          if l \<noteq> target
          then bnd (Remove w l a) (\<lambda>(w1, _). bnd (Push w1 target a) (\<lambda>(w2, _). ret w2))
          else ret w)"

text \<open>The body of the loop over the instance listing.\<close>

definition status_step ::
  "provider \<Rightarrow> world \<times> Cluster \<Rightarrow> InstanceAttributesType \<Rightarrow> (world \<times> Cluster) res" where
  "status_step P wc node =
     (let (w, c) = wc;
          (w1, a) = (case instances c (InstanceId node) of
                       Some a \<Rightarrow> (w, a)
                     | None \<Rightarrow> new_Instance w);
          w2 = (case find (\<lambda>d. DiskInstanceId d = InstanceId node) (disks c) of
                  None \<Rightarrow> w1
                | Some d \<Rightarrow> upd w1 a (\<lambda>i. i\<lparr>Disk := d\<rparr>))
      in if length (DiskId (Disk (heap w2 a))) = 0 then ret (w2, c)
         else
           let w3 = upd w2 a (\<lambda>i. i\<lparr>Attrs := node\<rparr>);
               c1 = c\<lparr>instances := (instances c)(InstanceId node \<mapsto> a)\<rparr>;
               st = Status (Attrs (heap w3 a));
               iid = InstanceId (Attrs (heap w3 a))
           in if st = ''Running'' then
                (case used c1 iid of
                   None \<Rightarrow> bnd (place w3 a (avavilable c1)) (\<lambda>w4. ret (w4, c1))
                 | Some _ \<Rightarrow> ret (w3, c1\<lparr>used := (used c1)(iid \<mapsto> a)\<rparr>))
              else if st = ''Starting'' then
                bnd (place w3 a (starting c1)) (\<lambda>w4. ret (w4, c1))
              else if st = ''Stopping'' then
                bnd (place w3 a (stopping c1)) (\<lambda>w4. ret (w4, c1))
              else if st = ''Stopped'' then
                bnd (case list_i (heap w3 a) of
                       None \<Rightarrow> ret w3
                     | Some l \<Rightarrow> bnd (Remove w3 l a) (\<lambda>(w4, _). ret w4))
                  (\<lambda>w4. let (w5, e) = Start P w4 a in ret (w5, c1))
              else ret (w3, c1))"

definition RefreshInstances ::
  "provider \<Rightarrow> world \<Rightarrow> Cluster \<Rightarrow> (world \<times> Cluster \<times> error option) res" where
  "RefreshInstances P w c =
     (let (r, w1) = do_call P w (EcsDescribeInstances 1)
      in case err r of
           Some e \<Rightarrow> ret (w1, c, Some e)
         | None \<Rightarrow>
             bnd (page_loop P EcsDescribeInstances instances_r w1 (instances_r r) (next_page r))
               (\<lambda>(w2, nodes, e).
                  (case e of
                     Some e \<Rightarrow> ret (w2, c, Some e)
                   | None \<Rightarrow>
                       (let (r', w3) = do_call P w2 (EcsDescribeResourceByTags 1)
                        in (case err r' of
                              Some e \<Rightarrow> ret (w3, c, Some e)
                            | None \<Rightarrow>
                                bnd (page_loop P EcsDescribeResourceByTags resources_r w3
                                       (resources_r r') (next_page r'))
                                  (\<lambda>(w4, resources, e).
                                     (case e of
                                        Some e \<Rightarrow> ret (w4, c, Some e)
                                      | None \<Rightarrow>
                                          bnd (foreach reserve_step (w4, c) resources) (\<lambda>wc.
                                            bnd (foreach (status_step P) wc nodes) (\<lambda>(w5, c5).
                                              ret (w5, c5, None))))))))))"

text \<open>\<^verbatim>\<open>NewCluster\<close> up to the start of the background loop.\<close>

definition NewCluster :: "provider \<Rightarrow> world \<Rightarrow> (world \<times> Cluster option \<times> error option) res" where
  "NewCluster P w =
     bnd (NewInstanceList w) (\<lambda>(w1, s).
       bnd (NewInstanceList w1) (\<lambda>(w2, a).
         bnd (NewInstanceList w2) (\<lambda>(w3, t).
           let c = \<lparr>starting = s, avavilable = a, stopping = t, used = Map.empty,
                    disks = [], instances = Map.empty\<rparr>
           in bnd (RefreshDisks P w3 c) (\<lambda>(w4, c4, e).
                case e of
                  Some e \<Rightarrow> ret (w4, None, Some e)
                | None \<Rightarrow>
                    bnd (RefreshInstances P w4 c4) (\<lambda>(w5, c5, e).
                      case e of
                        Some e \<Rightarrow> ret (w5, None, Some e)
                      | None \<Rightarrow> ret (w5, Some c5, None))))))"

section \<open>Delayer\<close>

text \<open>
  \<^verbatim>\<open>time.Duration\<close> is an \<^verbatim>\<open>int64\<close>: a 64-bit word read as two's complement, with wrapping
  \<open>+\<close> and \<open>-\<close>. \<^verbatim>\<open>Wait\<close> returns a channel that fires after \<^verbatim>\<open>waitPeriod\<close>; the model returns
  that period. \<open>Int63n\<close> is the draw function of the delayer's random source at this call
  (\<^verbatim>\<open>math/rand\<close>: for \<open>n > 0\<close> a value in \<open>[0, n)\<close>).
\<close>

record delayer =
  rangeMin :: "64 word"
  rangeMax :: "64 word"

definition newDelayer :: "64 word \<Rightarrow> 64 word \<Rightarrow> delayer" where
  "newDelayer lo hi = \<lparr>rangeMin = lo, rangeMax = hi\<rparr>"

definition Wait :: "delayer \<Rightarrow> (64 word \<Rightarrow> 64 word) \<Rightarrow> 64 word" where
  "Wait d Int63n =
     (let waitPeriod = rangeMin d;
          delta = rangeMax d - rangeMin d
      in if 0 <s delta then waitPeriod + Int63n delta else waitPeriod)"

section \<open>Well-formed buckets\<close>

text \<open>
  \<open>dll h p xs q\<close>: in the store \<open>h\<close> the \<^verbatim>\<open>next\<close> pointers lead from \<open>p\<close> through \<open>xs\<close> to \<open>q\<close> and the
  \<^verbatim>\<open>prev\<close> pointers lead back. \<open>bucket w l xs\<close>: the list at \<open>l\<close> is initialised and unlocked, its
  ring runs from the sentinel through the nodes \<open>xs\<close> (head first) back to the sentinel, no
  node occurs twice, \<^verbatim>\<open>size\<close> counts the nodes and every node's \<^verbatim>\<open>list\<close> field points to \<open>l\<close>.
\<close>

fun dll :: "(addr \<Rightarrow> Instance) \<Rightarrow> addr \<Rightarrow> addr list \<Rightarrow> addr \<Rightarrow> bool" where
  "dll h p [] q = (next_i (h p) = Some q \<and> prev_i (h q) = Some p)"
| "dll h p (x # xs) q = (next_i (h p) = Some x \<and> prev_i (h x) = Some p \<and> dll h x xs q)"

definition bucket :: "world \<Rightarrow> laddr \<Rightarrow> addr list \<Rightarrow> bool" where
  "bucket w l xs =
     (case root (lists w l) of
        None \<Rightarrow> False
      | Some r \<Rightarrow>
          \<not> locked (lists w l) \<and> dll (heap w) r xs r \<and> distinct (r # xs)
          \<and> size_l (lists w l) = int (length xs)
          \<and> list_all (\<lambda>x. list_i (heap w x) = Some l) xs)"

section \<open>Concrete inputs\<close>

text \<open>
  The store before anything is allocated: every \<^verbatim>\<open>InstanceList\<close> in it is a zero value. The
  providers answer every call the same way; \<open>quiet_provider\<close> succeeds with empty listings.
\<close>

definition empty_world :: world where
  "empty_world =
     \<lparr>heap = (\<lambda>_. zero_Instance), fresh = 0, lists = (\<lambda>_. zero_InstanceList), fresh_l = 0,
      trace = []\<rparr>"

definition ok_response :: response where
  "ok_response = \<lparr>err = None, disks_r = [], instances_r = [], resources_r = [], next_page = None\<rparr>"

definition quiet_provider :: provider where
  "quiet_provider tr c = ok_response"

definition reinit_fails :: provider where
  "reinit_fails tr c =
     (case c of
        EcsReInitDisk d \<Rightarrow> ok_response\<lparr>err := Some (Error ''disk busy'')\<rparr>
      | _ \<Rightarrow> ok_response)"

definition stopped_world :: world where
  "stopped_world =
     empty_world\<lparr>heap := (heap empty_world)
       (0 := zero_Instance
          \<lparr>Attrs := \<lparr>InstanceId = ''i-1'', Status = ''Stopped'', ImageId = ''img-1''\<rparr>,
           Disk := \<lparr>DiskId = ''d-1'', DiskInstanceId = ''i-1''\<rparr>\<rparr>)\<rparr>"

text \<open>
  A delayer with an ordinary range, and the draw function that always draws the largest
  value \<^verbatim>\<open>Int63n\<close> may return.
\<close>

definition top_draw :: "64 word \<Rightarrow> 64 word" where
  "top_draw n = n - 1"

definition sample_delayer :: delayer where
  "sample_delayer = newDelayer 2000 5000"

text \<open>
  A cluster that knows two running instances, \<open>i-1\<close> (reserved) and \<open>i-2\<close> (not reserved),
  and a provider whose stop call fails.
\<close>

definition running_world :: world where
  "running_world =
     empty_world\<lparr>heap := (heap empty_world)
       (0 := zero_Instance
          \<lparr>Attrs := \<lparr>InstanceId = ''i-1'', Status = ''Running'', ImageId = ''img-1''\<rparr>\<rparr>,
        1 := zero_Instance
          \<lparr>Attrs := \<lparr>InstanceId = ''i-2'', Status = ''Running'', ImageId = ''img-1''\<rparr>\<rparr>),
       fresh := 2\<rparr>"

definition demo_cluster :: Cluster where
  "demo_cluster =
     \<lparr>starting = 0, avavilable = 1, stopping = 2, used = [''i-1'' \<mapsto> 0], disks = [],
      instances = [''i-1'' \<mapsto> 0, ''i-2'' \<mapsto> 1]\<rparr>"

definition stop_fails :: provider where
  "stop_fails tr c =
     (case c of
        EcsStopInstance i f \<Rightarrow> ok_response\<lparr>err := Some (Error ''stop refused'')\<rparr>
      | _ \<Rightarrow> ok_response)"

text \<open>
  A cluster as \<^verbatim>\<open>NewCluster\<close> lays it out (lists 0, 1, 2 with the sentinels at addresses 0, 1,
  2) whose available bucket holds A, B and C in this order; D (address 6) and a second
  record with the identifier of B (address 7) are in no list. \<open>tag_fails\<close> refuses the
  reservation tag.
\<close>

definition abc_world :: world where
  "abc_world =
     \<lparr>heap = (\<lambda>_. zero_Instance)
        (0 := zero_Instance\<lparr>next_i := Some 0, prev_i := Some 0\<rparr>,
         1 := zero_Instance\<lparr>next_i := Some 3, prev_i := Some 5\<rparr>,
         2 := zero_Instance\<lparr>next_i := Some 2, prev_i := Some 2\<rparr>,
         3 := \<lparr>Attrs = \<lparr>InstanceId = ''A'', Status = ''Running'', ImageId = ''img-1''\<rparr>,
               Disk = \<lparr>DiskId = ''d-A'', DiskInstanceId = ''A''\<rparr>,
               next_i = Some 4, prev_i = Some 1, list_i = Some 1\<rparr>,
         4 := \<lparr>Attrs = \<lparr>InstanceId = ''B'', Status = ''Running'', ImageId = ''img-2''\<rparr>,
               Disk = \<lparr>DiskId = ''d-B'', DiskInstanceId = ''B''\<rparr>,
               next_i = Some 5, prev_i = Some 3, list_i = Some 1\<rparr>,
         5 := \<lparr>Attrs = \<lparr>InstanceId = ''C'', Status = ''Running'', ImageId = ''img-2''\<rparr>,
               Disk = \<lparr>DiskId = ''d-C'', DiskInstanceId = ''C''\<rparr>,
               next_i = Some 1, prev_i = Some 4, list_i = Some 1\<rparr>,
         6 := zero_Instance
               \<lparr>Attrs := \<lparr>InstanceId = ''D'', Status = ''Running'', ImageId = ''img-1''\<rparr>\<rparr>,
         7 := zero_Instance
               \<lparr>Attrs := \<lparr>InstanceId = ''B'', Status = ''Running'', ImageId = ''img-1''\<rparr>\<rparr>),
      fresh = 8,
      lists = (\<lambda>_. zero_InstanceList)
        (0 := \<lparr>locked = False, root = Some 0, size_l = 0\<rparr>,
         1 := \<lparr>locked = False, root = Some 1, size_l = 3\<rparr>,
         2 := \<lparr>locked = False, root = Some 2, size_l = 0\<rparr>),
      fresh_l = 3,
      trace = []\<rparr>"

definition abc_cluster :: Cluster where
  "abc_cluster =
     \<lparr>starting = 0, avavilable = 1, stopping = 2, used = Map.empty, disks = [],
      instances = [''A'' \<mapsto> 3, ''B'' \<mapsto> 4, ''C'' \<mapsto> 5]\<rparr>"

definition tag_fails :: provider where
  "tag_fails tr c =
     (case c of
        EcsAddTags i \<Rightarrow> ok_response\<lparr>err := Some (Error ''tag refused'')\<rparr>
      | _ \<Rightarrow> ok_response)"

text \<open>
  Providers for the reconciliation pass. Each answers the three listings with one page.
  \<open>tagged_starting\<close>: one instance \<open>i-1\<close> with a disk, reported Starting, and carrying the
  reservation tag. \<open>tagged_stopping\<close>: the instance B of the cluster above, reported
  Stopping, and carrying the reservation tag. \<open>diskless\<close>: one running instance \<open>i-1\<close> and no
  disk.
\<close>

definition tagged_starting :: provider where
  "tagged_starting tr c =
     (case c of
        EcsDescribeDisks pg \<Rightarrow>
          ok_response\<lparr>disks_r := [\<lparr>DiskId = ''d-1'', DiskInstanceId = ''i-1''\<rparr>]\<rparr>
      | EcsDescribeInstances pg \<Rightarrow>
          ok_response\<lparr>instances_r :=
            [\<lparr>InstanceId = ''i-1'', Status = ''Starting'', ImageId = ''img-1''\<rparr>]\<rparr>
      | EcsDescribeResourceByTags pg \<Rightarrow> ok_response\<lparr>resources_r := [''i-1'']\<rparr>
      | _ \<Rightarrow> ok_response)"

definition tagged_stopping :: provider where
  "tagged_stopping tr c =
     (case c of
        EcsDescribeInstances pg \<Rightarrow>
          ok_response\<lparr>instances_r :=
            [\<lparr>InstanceId = ''B'', Status = ''Stopping'', ImageId = ''img-2''\<rparr>]\<rparr>
      | EcsDescribeResourceByTags pg \<Rightarrow> ok_response\<lparr>resources_r := [''B'']\<rparr>
      | _ \<Rightarrow> ok_response)"



section \<open>Rules for running the model\<close>

lemma bnd_ret [simp]: "bnd (ret x) f = f x"
  by (simp add: bnd_def ret_def)

lemma bnd_raise [simp]: "bnd raise f = raise"
  by (simp add: bnd_def raise_def)

lemma bnd_None [simp]: "bnd None f = None"
  by (simp add: bnd_def)

lemma deref_Some [simp]: "deref (Some a) f = f a"
  by (simp add: deref_def)

lemma deref_None [simp]: "deref None f = raise"
  by (simp add: deref_def)

lemma ret_eq [simp]: "(ret x = ret y) = (x = y)"
  by (simp add: ret_def)

lemma ret_neq [simp]: "ret x \<noteq> raise" "raise \<noteq> ret x" "ret x \<noteq> None" "raise \<noteq> None"
  by (simp_all add: ret_def raise_def)

lemma Push_loop_None: "Push_loop w r None e = raise"
  by (subst Push_loop.simps) simp

lemma Push_loop_Some:
  "Push_loop w r (Some a) e =
     (if a = r then ret False
      else if InstanceId (Attrs (heap w a)) = InstanceId (Attrs (heap w e)) then ret True
      else Push_loop w r (next_i (heap w a)) e)"
  by (subst Push_loop.simps) simp

lemma Find_loop_None: "Find_loop w l r None imageId = raise"
  by (subst Find_loop.simps) simp

lemma Find_loop_Some:
  "Find_loop w l r (Some a) imageId =
     (if a = r then ret (w, None)
      else if ImageId (Attrs (heap w a)) = imageId
      then bnd (Remove w l a) (\<lambda>(w', e). ret (w', Some e))
      else Find_loop w l r (next_i (heap w a)) imageId)"
  by (subst Find_loop.simps) simp

lemma page_loop_None: "page_loop P mk items w acc None = ret (w, acc, None)"
  by (subst page_loop.simps) simp

lemma page_loop_Some:
  "page_loop P mk items w acc (Some pg) =
     (case do_call P w (mk pg) of
        (r, w1) \<Rightarrow>
          (case err r of
             Some e \<Rightarrow> ret (w1, acc, Some e)
           | None \<Rightarrow> page_loop P mk items w1 (acc @ items r) (next_page r)))"
  by (subst page_loop.simps) simp

text \<open>Store updates at numeral addresses are kept sorted, so a concrete store has one form.\<close>

lemma fun_upd_sort: "b < a \<Longrightarrow> (f(a := x))(b := y) = (f(b := y))(a := x)" for a b :: nat
  by (auto simp: fun_eq_iff)

section \<open>Instance lifecycle: Start\<close>

text \<open>
  C7. Start on an instance whose status is not Stopped returns the invalid-state error and
  issues no provider call (the world, trace included, is unchanged). On a Stopped instance
  the answer to the tag-clear call is ignored; when the disk reinitialisation fails, its
  error is returned and the trace ends with that call, so the start call is never issued;
  otherwise all three calls are issued in order and Start returns what the start call
  returned.
\<close>

theorem Start_outcomes:
  "(Status (Attrs (heap w a)) \<noteq> ''Stopped'' \<longrightarrow>
      Start P w a = (w, Some (Error ''Not stopped instance not support start action'')))
   \<and> (Status (Attrs (heap w a)) = ''Stopped'' \<longrightarrow>
        err (P (trace w @ [EcsRemoveTags (InstanceId (Attrs (heap w a)))])
               (EcsReInitDisk (DiskId (Disk (heap w a))))) = Some e \<longrightarrow>
        Start P w a =
          (w\<lparr>trace := trace w @ [EcsRemoveTags (InstanceId (Attrs (heap w a))),
                                 EcsReInitDisk (DiskId (Disk (heap w a)))]\<rparr>, Some e))
   \<and> (Status (Attrs (heap w a)) = ''Stopped'' \<longrightarrow>
        err (P (trace w @ [EcsRemoveTags (InstanceId (Attrs (heap w a)))])
               (EcsReInitDisk (DiskId (Disk (heap w a))))) = None \<longrightarrow>
        Start P w a =
          (w\<lparr>trace := trace w @ [EcsRemoveTags (InstanceId (Attrs (heap w a))),
                                 EcsReInitDisk (DiskId (Disk (heap w a))),
                                 EcsStartInstance (InstanceId (Attrs (heap w a)))]\<rparr>,
           err (P (trace w @ [EcsRemoveTags (InstanceId (Attrs (heap w a))),
                              EcsReInitDisk (DiskId (Disk (heap w a)))])
                  (EcsStartInstance (InstanceId (Attrs (heap w a)))))))"
  by (simp add: Start_def do_call_def)

theorem Start_outcomes_witness:
  "Start quiet_provider empty_world 0 =
     (empty_world, Some (Error ''Not stopped instance not support start action''))
   \<and> Start reinit_fails stopped_world 0 =
       (stopped_world\<lparr>trace := [EcsRemoveTags ''i-1'', EcsReInitDisk ''d-1'']\<rparr>,
        Some (Error ''disk busy''))
   \<and> Start quiet_provider stopped_world 0 =
       (stopped_world\<lparr>trace := [EcsRemoveTags ''i-1'', EcsReInitDisk ''d-1'',
                                 EcsStartInstance ''i-1'']\<rparr>, None)"
  using Start_outcomes [of empty_world 0 quiet_provider]
    Start_outcomes [of stopped_world 0 reinit_fails "Error ''disk busy''"]
    Start_outcomes [of stopped_world 0 quiet_provider]
  by (simp add: empty_world_def stopped_world_def zero_Instance_def quiet_provider_def
      reinit_fails_def ok_response_def)

section \<open>The zero-value bucket\<close>

text \<open>
  C10. A zero-value \<^verbatim>\<open>InstanceList\<close> has a \<^verbatim>\<open>nil\<close> root. \<^verbatim>\<open>Find\<close> reads \<^verbatim>\<open>l.root.next\<close> at once
  and \<^verbatim>\<open>Push\<close> reads it in \<^verbatim>\<open>lazyInit\<close>: both panic on the \<^verbatim>\<open>nil\<close> dereference, whatever
  else the store holds, so neither "not found" nor a successful push is returned.
\<close>

theorem zero_value_bucket_panics:
  "Find (updl w l (\<lambda>_. zero_InstanceList)) l imageId = raise
   \<and> Push (updl w l (\<lambda>_. zero_InstanceList)) l e = raise"
  by (simp add: Find_def Push_def lazyInit_def Lock_def updl_def zero_InstanceList_def)

section \<open>Delayer: the wait period\<close>

lemma sint_sub_small:
  fixes a b :: "64 word"
  assumes "0 \<le> sint b - sint a" "sint b - sint a < 2 ^ 63"
  shows "sint (b - a) = sint b - sint a"
  using assms by (simp add: sint_word_ariths signed_take_bit_int_eq_self)

lemma sint_sub_wide:
  fixes a b :: "64 word"
  assumes "2 ^ 63 \<le> sint b - sint a"
  shows "sint (b - a) < 0"
proof -
  have b: "sint b < 2 ^ 63" using sint_lt [of b] by simp
  have a: "- (2 ^ 63) \<le> sint a" using sint_ge [of a] by simp
  have "sint (b - a) = signed_take_bit 63 (sint b - sint a)"
    by (simp add: sint_word_ariths)
  also have "\<dots> = take_bit 64 (sint b - sint a + 2 ^ 63) - 2 ^ 63"
    by (simp add: signed_take_bit_eq_take_bit_shift)
  also have "take_bit 64 (sint b - sint a + 2 ^ 63) = sint b - sint a + 2 ^ 63 - 2 ^ 64"
  proof -
    have "(sint b - sint a + 2 ^ 63) mod 2 ^ 64 = (sint b - sint a + 2 ^ 63 - 2 ^ 64) mod 2 ^ 64"
      by (metis mod_add_self2 diff_add_cancel)
    also have "\<dots> = sint b - sint a + 2 ^ 63 - 2 ^ 64"
      using assms a b by (intro mod_pos_pos_trivial) simp_all
    finally show ?thesis by (simp add: take_bit_eq_mod)
  qed
  finally show ?thesis using a b by simp
qed

lemma sint_add_small:
  fixes a r :: "64 word"
  assumes "0 \<le> sint r" "sint a + sint r < 2 ^ 63"
  shows "sint (a + r) = sint a + sint r"
proof -
  have "- (2 ^ 63) \<le> sint a" using sint_ge [of a] by simp
  then show ?thesis using assms by (simp add: sint_word_ariths signed_take_bit_int_eq_self)
qed

lemma top_draw_in_range: "0 <s n \<Longrightarrow> 0 \<le>s top_draw n \<and> top_draw n <s n"
proof -
  assume "0 <s n"
  then have pos: "0 < sint n" by (simp add: word_sless_alt)
  have "sint n < 2 ^ 63" using sint_lt [of n] by simp
  with pos have "sint (n - 1) = sint n - 1"
    by (simp add: sint_word_ariths signed_take_bit_int_eq_self)
  with pos show ?thesis by (simp add: top_draw_def word_sless_alt word_sle_eq)
qed

lemma nonneg_span_fits:
  fixes lo hi :: "64 word"
  assumes "0 \<le>s lo"
  shows "sint hi - sint lo < 2 ^ 63"
proof -
  have "sint hi < 2 ^ 63" using sint_lt [of hi] by simp
  moreover have "0 \<le> sint lo" using assms by (simp add: word_sle_eq)
  ultimately show ?thesis by simp
qed

text \<open>
  The computed period for every span: \<open>delta\<close> is the span when the span fits in an
  \<^verbatim>\<open>int64\<close>; for a wider span (which needs a negative \<open>rangeMin\<close>) the subtraction wraps to
  a negative \<open>delta\<close> and nothing is drawn.
\<close>

lemma Wait_spans:
  assumes le: "rangeMin d \<le>s rangeMax d"
    and draw: "\<forall>n. 0 <s n \<longrightarrow> 0 \<le>s Int63n n \<and> Int63n n <s n"
  shows "(rangeMin d \<noteq> rangeMax d \<and> sint (rangeMax d) - sint (rangeMin d) < 2 ^ 63 \<longrightarrow>
           Wait d Int63n = rangeMin d + Int63n (rangeMax d - rangeMin d)
           \<and> sint (rangeMax d - rangeMin d) = sint (rangeMax d) - sint (rangeMin d)
           \<and> sint (Wait d Int63n) = sint (rangeMin d) + sint (Int63n (rangeMax d - rangeMin d))
           \<and> 0 \<le> sint (Int63n (rangeMax d - rangeMin d))
           \<and> sint (Int63n (rangeMax d - rangeMin d)) < sint (rangeMax d) - sint (rangeMin d))
       \<and> (rangeMax d = rangeMin d \<longrightarrow> Wait d Int63n = rangeMin d)
       \<and> (2 ^ 63 \<le> sint (rangeMax d) - sint (rangeMin d) \<longrightarrow> Wait d Int63n = rangeMin d)
       \<and> rangeMin d \<le>s Wait d Int63n \<and> Wait d Int63n \<le>s rangeMax d"
proof -
  define a b where "a = rangeMin d" and "b = rangeMax d"
  have le': "sint a \<le> sint b" using le by (simp add: a_def b_def word_sle_eq)
  have bb: "sint b < 2 ^ 63" using sint_lt [of b] by simp
  show ?thesis
  proof (cases "sint b - sint a < 2 ^ 63")
    case small: True
    then have delta: "sint (b - a) = sint b - sint a"
      using le' by (intro sint_sub_small) simp_all
    show ?thesis
    proof (cases "a = b")
      case True
      then show ?thesis using le by (simp add: Wait_def a_def b_def)
    next
      case False
      then have "sint a \<noteq> sint b"
        using word_eq_iff_signed [where ?'a = int, of a b] by simp
      then have pos: "0 <s b - a" using le' delta by (simp add: word_sless_alt)
      then have "0 \<le>s Int63n (b - a) \<and> Int63n (b - a) <s b - a"
        using draw by blast
      then have r: "0 \<le> sint (Int63n (b - a))" "sint (Int63n (b - a)) < sint b - sint a"
        using delta by (simp_all add: word_sless_alt word_sle_eq)
      have w: "Wait d Int63n = a + Int63n (b - a)"
        using pos by (simp add: Wait_def a_def b_def)
      have s: "sint (a + Int63n (b - a)) = sint a + sint (Int63n (b - a))"
        using r bb by (intro sint_add_small) simp_all
      show ?thesis using w s r small False delta
        by (simp add: word_sle_eq a_def [symmetric] b_def [symmetric])
    qed
  next
    case False
    then have "sint (b - a) < 0" by (intro sint_sub_wide) simp
    then have w: "Wait d Int63n = a" by (simp add: Wait_def a_def b_def word_sless_alt)
    have "a \<noteq> b" using False by auto
    then show ?thesis using w False le
      by (auto simp: a_def b_def)
  qed
qed

text \<open>
  C9. For every delayer with \<open>rangeMin \<le> rangeMax\<close> whose span \<open>rangeMax - rangeMin\<close> is
  itself a duration (it fits in an \<^verbatim>\<open>int64\<close>, as the span of every range of non-negative
  durations does, \<open>nonneg_span_fits\<close>) and for every draw function that keeps the contract
  of \<^verbatim>\<open>Int63n\<close>: when \<open>rangeMax > rangeMin\<close> the wait period is \<open>rangeMin\<close> plus the value drawn
  for the span, the drawn value lies in \<open>[0, rangeMax - rangeMin)\<close> and the sum does not wrap
  around; when \<open>rangeMax = rangeMin\<close> the period is exactly \<open>rangeMin\<close>; in both cases the
  period lies in \<open>[rangeMin, rangeMax]\<close>. That the draw is uniform is a property of the
  random source, not of this function.
\<close>

theorem Wait_period:
  assumes le: "rangeMin d \<le>s rangeMax d"
    and span: "sint (rangeMax d) - sint (rangeMin d) < 2 ^ 63"
    and draw: "\<forall>n. 0 <s n \<longrightarrow> 0 \<le>s Int63n n \<and> Int63n n <s n"
  shows "(rangeMin d <s rangeMax d \<longrightarrow>
           Wait d Int63n = rangeMin d + Int63n (rangeMax d - rangeMin d)
           \<and> sint (rangeMax d - rangeMin d) = sint (rangeMax d) - sint (rangeMin d)
           \<and> sint (Wait d Int63n) = sint (rangeMin d) + sint (Int63n (rangeMax d - rangeMin d))
           \<and> 0 \<le> sint (Int63n (rangeMax d - rangeMin d))
           \<and> sint (Int63n (rangeMax d - rangeMin d)) < sint (rangeMax d) - sint (rangeMin d))
       \<and> (rangeMax d = rangeMin d \<longrightarrow> Wait d Int63n = rangeMin d)
       \<and> rangeMin d \<le>s Wait d Int63n \<and> Wait d Int63n \<le>s rangeMax d"
proof -
  have "rangeMin d \<noteq> rangeMax d" if "rangeMin d <s rangeMax d"
    using that by (auto simp: word_sless_alt)
  then show ?thesis
    using Wait_spans [OF le draw] span by blast
qed

theorem Wait_period_witness:
  "rangeMin sample_delayer <s rangeMax sample_delayer
   \<and> Wait sample_delayer top_draw =
       rangeMin sample_delayer + top_draw (rangeMax sample_delayer - rangeMin sample_delayer)
   \<and> sint (Wait sample_delayer top_draw) = 4999
   \<and> rangeMin sample_delayer \<le>s Wait sample_delayer top_draw
   \<and> Wait sample_delayer top_draw \<le>s rangeMax sample_delayer"
proof -
  have lt: "rangeMin sample_delayer <s rangeMax sample_delayer"
    by (simp add: sample_delayer_def newDelayer_def word_sless_alt)
  then have le: "rangeMin sample_delayer \<le>s rangeMax sample_delayer"
    by (simp add: word_sless_alt word_sle_eq)
  have "0 \<le>s rangeMin sample_delayer"
    by (simp add: sample_delayer_def newDelayer_def word_sle_eq)
  then have span: "sint (rangeMax sample_delayer) - sint (rangeMin sample_delayer) < 2 ^ 63"
    by (rule nonneg_span_fits)
  have draw: "\<forall>n. 0 <s n \<longrightarrow> 0 \<le>s top_draw n \<and> top_draw n <s n"
    using top_draw_in_range by blast
  have top: "top_draw (3000 :: 64 word) = 2999"
    by (simp add: top_draw_def)
  show ?thesis
    using Wait_period [OF le span draw] lt
    by (simp add: sample_delayer_def newDelayer_def top)
qed

section \<open>Cluster: StopInstance\<close>

lemma Stop_heap: "heap (fst (Stop P w a)) = heap w"
  by (simp add: Stop_def do_call_def)

text \<open>
  C6. An identifier that is not in the index gives the not-found error, one that is in the
  index but not in \<open>used\<close> gives the other, different error, and in both cases the store and
  the cluster are returned as they were. For a reserved identifier the error of \<^verbatim>\<open>Stop\<close> is
  returned and the cluster is unchanged; when \<^verbatim>\<open>Stop\<close> succeeds the call returns no error and
  deletes the key \<^verbatim>\<open>instance.Attrs.InstanceId\<close> from \<open>used\<close>, which is the identifier for
  an entry stored under its own identifier (every entry the package stores whose status
  is Running is). \<^verbatim>\<open>Stop\<close> itself changes no instance.
\<close>

theorem StopInstance_outcomes:
  "(instances c i = None \<longrightarrow>
      StopInstance P w c i = (w, c, Some (Error ''not found instance'')))
   \<and> (instances c i \<noteq> None \<and> used c i = None \<longrightarrow>
        StopInstance P w c i = (w, c, Some (Error ''not used instance can not been stop'')))
   \<and> Error ''not found instance'' \<noteq> Error ''not used instance can not been stop''
   \<and> (instances c i \<noteq> None \<and> used c i = Some a \<and> snd (Stop P w a) = Some e \<longrightarrow>
        StopInstance P w c i = (fst (Stop P w a), c, Some e))
   \<and> (instances c i \<noteq> None \<and> used c i = Some a \<and> snd (Stop P w a) = None
        \<and> InstanceId (Attrs (heap w a)) = i \<longrightarrow>
        StopInstance P w c i = (fst (Stop P w a), c\<lparr>used := (used c)(i := None)\<rparr>, None))
   \<and> heap (fst (Stop P w a)) = heap w"
proof -
  obtain w1 e1 where stop: "Stop P w a = (w1, e1)"
    by (cases "Stop P w a")
  have same: "heap w1 = heap w"
    using Stop_heap [of P w a] stop by simp
  show ?thesis
    using stop same by (simp add: StopInstance_def split: option.splits)
qed

theorem StopInstance_outcomes_witness:
  "StopInstance quiet_provider running_world demo_cluster ''i-9'' =
     (running_world, demo_cluster, Some (Error ''not found instance''))
   \<and> StopInstance quiet_provider running_world demo_cluster ''i-2'' =
       (running_world, demo_cluster, Some (Error ''not used instance can not been stop''))
   \<and> StopInstance stop_fails running_world demo_cluster ''i-1'' =
       (running_world\<lparr>trace := [EcsRemoveTags ''i-1'', EcsStopInstance ''i-1'' True]\<rparr>,
        demo_cluster, Some (Error ''stop refused''))
   \<and> StopInstance quiet_provider running_world demo_cluster ''i-1'' =
       (running_world\<lparr>trace := [EcsRemoveTags ''i-1'', EcsStopInstance ''i-1'' True]\<rparr>,
        demo_cluster\<lparr>used := (used demo_cluster)(''i-1'' := None)\<rparr>, None)"
proof -
  have fails: "Stop stop_fails running_world 0 =
      (running_world\<lparr>trace := [EcsRemoveTags ''i-1'', EcsStopInstance ''i-1'' True]\<rparr>,
       Some (Error ''stop refused''))"
    by (simp add: Stop_def do_call_def running_world_def empty_world_def stop_fails_def
        ok_response_def)
  have quiet: "Stop quiet_provider running_world 0 =
      (running_world\<lparr>trace := [EcsRemoveTags ''i-1'', EcsStopInstance ''i-1'' True]\<rparr>, None)"
    by (simp add: Stop_def do_call_def running_world_def empty_world_def quiet_provider_def
        ok_response_def)
  have id: "InstanceId (Attrs (heap running_world 0)) = ''i-1''"
    by (simp add: running_world_def)
  show ?thesis
    using StopInstance_outcomes [of demo_cluster "''i-9''" quiet_provider running_world]
      StopInstance_outcomes [of demo_cluster "''i-2''" quiet_provider running_world]
      StopInstance_outcomes [of demo_cluster "''i-1''" stop_fails running_world 0
        "Error ''stop refused''"]
      StopInstance_outcomes [of demo_cluster "''i-1''" quiet_provider running_world 0]
    by (simp add: fails quiet id demo_cluster_def)
qed

section \<open>Buckets: the ring\<close>

lemma upd_sel [simp]:
  "heap (upd w a f) = (heap w)(a := f (heap w a))" "lists (upd w a f) = lists w"
  "fresh (upd w a f) = fresh w" "fresh_l (upd w a f) = fresh_l w" "trace (upd w a f) = trace w"
  by (simp_all add: upd_def)

lemma updl_sel [simp]:
  "heap (updl w l g) = heap w" "lists (updl w l g) = (lists w)(l := g (lists w l))"
  "fresh (updl w l g) = fresh w" "fresh_l (updl w l g) = fresh_l w" "trace (updl w l g) = trace w"
  by (simp_all add: updl_def)

lemma dll_append:
  "dll h p (xs @ y # ys) q = (dll h p xs y \<and> dll h y ys q)"
  by (induction xs arbitrary: p) auto

lemma dll_cong:
  "\<lbrakk>\<forall>x \<in> set (p # xs). next_i (h' x) = next_i (h x);
    \<forall>x \<in> set (xs @ [q]). prev_i (h' x) = prev_i (h x)\<rbrakk>
   \<Longrightarrow> dll h' p xs q = dll h p xs q"
  by (induction xs arbitrary: p) auto

lemma dll_last: "dll h p xs q \<Longrightarrow> prev_i (h q) = Some (last (p # xs))"
  by (induction xs arbitrary: p) auto

lemma dll_first: "dll h p xs q \<Longrightarrow> next_i (h p) = Some (hd (xs @ [q]))"
  by (cases xs) auto

lemma relock: "\<not> locked (lists w l) \<Longrightarrow> Unlock (updl w l (\<lambda>b. b\<lparr>locked := True\<rparr>)) l = w"
  by (simp add: Unlock_def updl_def fun_upd_idem_iff)


lemma dll_unlink:
  assumes "dll h r (pre @ e # post) r" and "distinct (r # pre @ e # post)"
    and nx: "\<And>x. next_i (h' x) =
               (if x = e then None
                else if x = last (r # pre) then Some (hd (post @ [r])) else next_i (h x))"
    and pv: "\<And>x. prev_i (h' x) =
               (if x = e then None
                else if x = hd (post @ [r]) then Some (last (r # pre)) else prev_i (h x))"
  shows "dll h' r (pre @ post) r"
proof (cases pre rule: rev_cases)
  case Nil
  show ?thesis
  proof (cases post)
    case Nil
    with \<open>pre = []\<close> assms(2) show ?thesis by (simp add: nx pv)
  next
    case (Cons n post')
    with \<open>pre = []\<close> assms(1) have old: "dll h n post' r" by simp
    have "dll h' n post' r = dll h n post' r"
      using assms(2) Cons \<open>pre = []\<close> by (intro dll_cong) (auto simp: nx pv)
    with old Cons \<open>pre = []\<close> assms(2) show ?thesis by (simp add: nx pv)
  qed
next
  case (snoc pre' p)
  with assms(1) have old1: "dll h r pre' p"
    by (simp add: dll_append)
  have n_in: "hd (post @ [r]) = r \<or> hd (post @ [r]) \<in> set post"
    by (cases post) auto
  have new1: "dll h' r pre' p = dll h r pre' p"
    using assms(2) snoc n_in by (intro dll_cong) (auto simp: nx pv)
  show ?thesis
  proof (cases post)
    case Nil
    with snoc old1 new1 assms(2) show ?thesis by (auto simp: dll_append nx pv)
  next
    case (Cons n post')
    with snoc assms(1) have old2: "dll h n post' r" by (simp add: dll_append)
    have "dll h' n post' r = dll h n post' r"
      using assms(2) Cons snoc by (intro dll_cong) (auto simp: nx pv)
    with old1 new1 old2 Cons snoc assms(2) show ?thesis by (auto simp: dll_append nx pv)
  qed
qed

lemma dll_link_tail:
  assumes "dll h r xs r" and "distinct (r # xs)" and "e \<notin> set (r # xs)"
    and nx: "\<And>x. next_i (h' x) =
               (if x = e then Some r else if x = last (r # xs) then Some e else next_i (h x))"
    and pv: "\<And>x. prev_i (h' x) =
               (if x = e then Some (last (r # xs)) else if x = r then Some e else prev_i (h x))"
  shows "dll h' r (xs @ [e]) r"
proof (cases xs rule: rev_cases)
  case Nil
  with assms(3) show ?thesis by (auto simp: nx pv)
next
  case (snoc ys t)
  with assms(1) have old: "dll h r ys t" by (simp add: dll_append)
  have "dll h' r ys t = dll h r ys t"
    using assms(2,3) snoc by (intro dll_cong) (auto simp: nx pv)
  with old snoc assms(2,3) show ?thesis by (auto simp: dll_append nx pv)
qed


lemma bucketD:
  assumes "bucket w l xs"
  obtains r where "root (lists w l) = Some r" "\<not> locked (lists w l)" "dll (heap w) r xs r"
    "distinct (r # xs)" "size_l (lists w l) = int (length xs)"
    "\<And>x. x \<in> set xs \<Longrightarrow> list_i (heap w x) = Some l"
  using assms by (auto simp: bucket_def list_all_iff split: option.splits)

lemma lazyInit_bucket: "bucket w l xs \<Longrightarrow> lazyInit w l = ret w"
  by (erule bucketD) (auto simp: lazyInit_def Lock_def relock dest: dll_first)

lemma Push_loop_scan:
  "\<lbrakk>dll (heap w) p ys r; r \<notin> set ys\<rbrakk>
   \<Longrightarrow> Push_loop w r (next_i (heap w p)) e =
       ret (\<exists>x \<in> set ys. InstanceId (Attrs (heap w x)) = InstanceId (Attrs (heap w e)))"
  by (induction ys arbitrary: p) (auto simp: Push_loop_Some)

lemma Remove_bucket:
  assumes "bucket w l (pre @ e # post)"
  shows "\<exists>w'. Remove w l e = ret (w', e) \<and> bucket w' l (pre @ post)
           \<and> next_i (heap w' e) = None \<and> prev_i (heap w' e) = None \<and> list_i (heap w' e) = None
           \<and> size_l (lists w' l) = size_l (lists w l) - 1
           \<and> (\<forall>a. Attrs (heap w' a) = Attrs (heap w a) \<and> Disk (heap w' a) = Disk (heap w a))
           \<and> (\<forall>a. a \<noteq> e \<longrightarrow> list_i (heap w' a) = list_i (heap w a))
           \<and> (\<forall>a. Some a \<noteq> root (lists w l) \<and> a \<notin> set (pre @ e # post) \<longrightarrow> heap w' a = heap w a)
           \<and> (\<forall>l'. l' \<noteq> l \<longrightarrow> lists w' l' = lists w l')
           \<and> root (lists w' l) = root (lists w l)
           \<and> fresh w' = fresh w \<and> fresh_l w' = fresh_l w \<and> trace w' = trace w"
proof -
  from assms obtain r where r: "root (lists w l) = Some r" and nl: "\<not> locked (lists w l)"
    and d: "dll (heap w) r (pre @ e # post) r" and dist: "distinct (r # pre @ e # post)"
    and sz: "size_l (lists w l) = int (length (pre @ e # post))"
    and li: "\<And>x. x \<in> set (pre @ e # post) \<Longrightarrow> list_i (heap w x) = Some l"
    by (auto elim: bucketD)
  define p where "p = last (r # pre)"
  define n where "n = hd (post @ [r])"
  from d have d1: "dll (heap w) r pre e" and d2: "dll (heap w) e post r"
    by (simp_all add: dll_append)
  have pe: "prev_i (heap w e) = Some p"
    using dll_last [OF d1] by (simp add: p_def)
  have ne: "next_i (heap w e) = Some n"
    using dll_first [OF d2] by (simp add: n_def)
  have p_in: "p \<in> set (r # pre)" unfolding p_def by (rule last_in_set) simp
  have n_in: "n \<in> set (post @ [r])" unfolding n_def by (rule hd_in_set) simp
  have p_e: "p \<noteq> e" and n_e: "n \<noteq> e" using p_in n_in dist by auto
  define w' where "w' =
    Unlock (updl (upd (upd (upd (upd (upd (updl w l (\<lambda>b. b\<lparr>locked := True\<rparr>))
      p (\<lambda>i. i\<lparr>next_i := Some n\<rparr>)) n (\<lambda>i. i\<lparr>prev_i := Some p\<rparr>)) e (\<lambda>i. i\<lparr>next_i := None\<rparr>))
      e (\<lambda>i. i\<lparr>prev_i := None\<rparr>)) e (\<lambda>i. i\<lparr>list_i := None\<rparr>)) l (\<lambda>b. b\<lparr>size_l := size_l b - 1\<rparr>)) l"
  have run: "Remove w l e = ret (w', e)"
    using nl pe ne p_e by (simp add: Remove_def Lock_def Let_def w'_def)
  have nx: "next_i (heap w' x) =
      (if x = e then None else if x = p then Some n else next_i (heap w x))" for x
    using p_e n_e by (simp add: w'_def Unlock_def)
  have pv: "prev_i (heap w' x) =
      (if x = e then None else if x = n then Some p else prev_i (heap w x))" for x
    using p_e n_e by (simp add: w'_def Unlock_def)
  have ls: "list_i (heap w' x) = (if x = e then None else list_i (heap w x))" for x
    by (simp add: w'_def Unlock_def)
  have at: "Attrs (heap w' x) = Attrs (heap w x)" "Disk (heap w' x) = Disk (heap w x)" for x
    by (simp_all add: w'_def Unlock_def)
  have lst: "lists w' l = (lists w l)\<lparr>size_l := size_l (lists w l) - 1\<rparr>"
    using nl by (simp add: w'_def Unlock_def)
  have oth: "lists w' l' = lists w l'" if "l' \<noteq> l" for l'
    using that by (simp add: w'_def Unlock_def)
  have fr: "heap w' a = heap w a" if "a \<noteq> r" "a \<notin> set (pre @ e # post)" for a
  proof -
    from that p_in n_in have "a \<noteq> p" "a \<noteq> n" "a \<noteq> e" by auto
    then show ?thesis by (simp add: w'_def Unlock_def)
  qed
  have ring: "dll (heap w') r (pre @ post) r"
    using d dist by (rule dll_unlink) (simp_all add: nx pv p_def n_def)
  have b: "bucket w' l (pre @ post)"
    using ring dist sz li nl r by (auto simp: bucket_def lst ls list_all_iff)
  have misc: "fresh w' = fresh w" "fresh_l w' = fresh_l w" "trace w' = trace w"
    by (simp_all add: w'_def Unlock_def)
  show ?thesis
    using run b nx pv ls at lst oth fr misc r by (intro exI [of _ w']) auto
qed


lemma dll_last_next: "dll h p xs q \<Longrightarrow> next_i (h (last (p # xs))) = Some q"
  by (induction xs arbitrary: p) auto

lemma insert_l_bucket:
  assumes "bucket w l xs" and er: "Some e \<noteq> root (lists w l)" and ex: "e \<notin> set xs"
  shows "\<exists>w'. insert_l w l e (prev_i (heap w (the (root (lists w l))))) = ret (w', e)
           \<and> bucket w' l (xs @ [e])
           \<and> size_l (lists w' l) = size_l (lists w l) + 1
           \<and> (\<forall>a. Attrs (heap w' a) = Attrs (heap w a) \<and> Disk (heap w' a) = Disk (heap w a))
           \<and> (\<forall>a. a \<noteq> e \<longrightarrow> list_i (heap w' a) = list_i (heap w a))
           \<and> (\<forall>a. Some a \<noteq> root (lists w l) \<and> a \<notin> set (xs @ [e]) \<longrightarrow> heap w' a = heap w a)
           \<and> (\<forall>l'. l' \<noteq> l \<longrightarrow> lists w' l' = lists w l')
           \<and> root (lists w' l) = root (lists w l)
           \<and> fresh w' = fresh w \<and> fresh_l w' = fresh_l w \<and> trace w' = trace w"
proof -
  from assms(1) obtain r where r: "root (lists w l) = Some r" and nl: "\<not> locked (lists w l)"
    and d: "dll (heap w) r xs r" and dist: "distinct (r # xs)"
    and sz: "size_l (lists w l) = int (length xs)"
    and li: "\<And>x. x \<in> set xs \<Longrightarrow> list_i (heap w x) = Some l"
    by (auto elim: bucketD)
  define t where "t = last (r # xs)"
  have pr: "prev_i (heap w r) = Some t"
    using dll_last [OF d] by (simp add: t_def)
  have nt: "next_i (heap w t) = Some r"
    using dll_last_next [OF d] by (simp add: t_def)
  have t_in: "t \<in> set (r # xs)" unfolding t_def by (rule last_in_set) simp
  have e_r: "e \<noteq> r" using er r by auto
  have e_t: "e \<noteq> t" using t_in e_r ex by auto
  define w' where "w' =
    Unlock (updl (upd (upd (upd (upd (upd (updl w l (\<lambda>b. b\<lparr>locked := True\<rparr>))
      t (\<lambda>i. i\<lparr>next_i := Some e\<rparr>)) e (\<lambda>i. i\<lparr>prev_i := Some t\<rparr>)) e (\<lambda>i. i\<lparr>next_i := Some r\<rparr>))
      r (\<lambda>i. i\<lparr>prev_i := Some e\<rparr>)) e (\<lambda>i. i\<lparr>list_i := Some l\<rparr>)) l (\<lambda>b. b\<lparr>size_l := size_l b + 1\<rparr>)) l"
  have run: "insert_l w l e (prev_i (heap w (the (root (lists w l))))) = ret (w', e)"
    using nl pr nt r by (simp add: insert_l_def Lock_def Let_def w'_def)
  have nx: "next_i (heap w' x) =
      (if x = e then Some r else if x = t then Some e else next_i (heap w x))" for x
    using e_r e_t by (simp add: w'_def Unlock_def)
  have pv: "prev_i (heap w' x) =
      (if x = e then Some t else if x = r then Some e else prev_i (heap w x))" for x
    using e_r e_t by (simp add: w'_def Unlock_def)
  have ls: "list_i (heap w' x) = (if x = e then Some l else list_i (heap w x))" for x
    by (simp add: w'_def Unlock_def)
  have at: "Attrs (heap w' x) = Attrs (heap w x)" "Disk (heap w' x) = Disk (heap w x)" for x
    by (simp_all add: w'_def Unlock_def)
  have lst: "lists w' l = (lists w l)\<lparr>size_l := size_l (lists w l) + 1\<rparr>"
    using nl by (simp add: w'_def Unlock_def)
  have oth: "lists w' l' = lists w l'" if "l' \<noteq> l" for l'
    using that by (simp add: w'_def Unlock_def)
  have fr: "heap w' a = heap w a" if "a \<noteq> r" "a \<notin> set (xs @ [e])" for a
  proof -
    from that t_in have "a \<noteq> t" "a \<noteq> e" by auto
    with that show ?thesis by (simp add: w'_def Unlock_def)
  qed
  have ring: "dll (heap w') r (xs @ [e]) r"
    using d dist e_r ex by (intro dll_link_tail [of "heap w"]) (simp_all add: nx pv t_def)
  have b: "bucket w' l (xs @ [e])"
    using ring dist sz li nl r e_r ex by (auto simp: bucket_def lst ls list_all_iff)
  have misc: "fresh w' = fresh w" "fresh_l w' = fresh_l w" "trace w' = trace w"
    by (simp_all add: w'_def Unlock_def)
  show ?thesis
    using run b ls at lst oth fr misc r by (intro exI [of _ w']) auto
qed

lemma Push_bucket_dup:
  assumes "bucket w l xs"
    and "\<exists>x \<in> set xs. InstanceId (Attrs (heap w x)) = InstanceId (Attrs (heap w e))"
  shows "Push w l e = ret (w, None)"
proof -
  from assms(1) obtain r where r: "root (lists w l) = Some r"
    and d: "dll (heap w) r xs r" and dist: "distinct (r # xs)"
    by (auto elim: bucketD)
  have "Push_loop w r (next_i (heap w r)) e = ret True"
    using Push_loop_scan [OF d, of e] dist assms(2) by simp
  then show ?thesis
    using r by (simp add: Push_def lazyInit_bucket [OF assms(1)])
qed

lemma Push_bucket_new:
  assumes "bucket w l xs" and er: "Some e \<noteq> root (lists w l)"
    and "\<forall>x \<in> set xs. InstanceId (Attrs (heap w x)) \<noteq> InstanceId (Attrs (heap w e))"
  shows "\<exists>w'. Push w l e = ret (w', Some e)
           \<and> bucket w' l (xs @ [e])
           \<and> size_l (lists w' l) = size_l (lists w l) + 1
           \<and> (\<forall>a. Attrs (heap w' a) = Attrs (heap w a) \<and> Disk (heap w' a) = Disk (heap w a))
           \<and> (\<forall>a. a \<noteq> e \<longrightarrow> list_i (heap w' a) = list_i (heap w a))
           \<and> (\<forall>a. Some a \<noteq> root (lists w l) \<and> a \<notin> set (xs @ [e]) \<longrightarrow> heap w' a = heap w a)
           \<and> (\<forall>l'. l' \<noteq> l \<longrightarrow> lists w' l' = lists w l')
           \<and> root (lists w' l) = root (lists w l)
           \<and> fresh w' = fresh w \<and> fresh_l w' = fresh_l w \<and> trace w' = trace w"
proof -
  from assms(1) obtain r where r: "root (lists w l) = Some r"
    and d: "dll (heap w) r xs r" and dist: "distinct (r # xs)"
    by (auto elim: bucketD)
  have ex: "e \<notin> set xs" using assms(3) by auto
  have scan: "Push_loop w r (next_i (heap w r)) e = ret False"
    using Push_loop_scan [OF d, of e] dist assms(3) by simp
  from insert_l_bucket [OF assms(1) er ex] obtain w' where
    ins: "insert_l w l e (prev_i (heap w r)) = ret (w', e)" and
    rest: "bucket w' l (xs @ [e])
           \<and> size_l (lists w' l) = size_l (lists w l) + 1
           \<and> (\<forall>a. Attrs (heap w' a) = Attrs (heap w a) \<and> Disk (heap w' a) = Disk (heap w a))
           \<and> (\<forall>a. a \<noteq> e \<longrightarrow> list_i (heap w' a) = list_i (heap w a))
           \<and> (\<forall>a. Some a \<noteq> root (lists w l) \<and> a \<notin> set (xs @ [e]) \<longrightarrow> heap w' a = heap w a)
           \<and> (\<forall>l'. l' \<noteq> l \<longrightarrow> lists w' l' = lists w l')
           \<and> root (lists w' l) = root (lists w l)
           \<and> fresh w' = fresh w \<and> fresh_l w' = fresh_l w \<and> trace w' = trace w"
    using r by auto
  have "Push w l e = ret (w', Some e)"
    using r scan ins by (simp add: Push_def lazyInit_bucket [OF assms(1)])
  with rest show ?thesis by blast
qed

lemma Find_loop_miss:
  "\<lbrakk>dll (heap w) p ys r; r \<notin> set ys; \<forall>x \<in> set ys. ImageId (Attrs (heap w x)) \<noteq> imageId\<rbrakk>
   \<Longrightarrow> Find_loop w l r (next_i (heap w p)) imageId = ret (w, None)"
  by (induction ys arbitrary: p) (auto simp: Find_loop_Some)

lemma Find_loop_hit:
  "\<lbrakk>dll (heap w) p (pre @ e # post) r; r \<notin> set (pre @ [e]);
    \<forall>x \<in> set pre. ImageId (Attrs (heap w x)) \<noteq> imageId; ImageId (Attrs (heap w e)) = imageId\<rbrakk>
   \<Longrightarrow> Find_loop w l r (next_i (heap w p)) imageId =
         bnd (Remove w l e) (\<lambda>(w', e). ret (w', Some e))"
  by (induction pre arbitrary: p) (auto simp: Find_loop_Some)


lemma abc_bucket: "bucket abc_world 1 [3, 4, 5]"
  by (simp add: bucket_def abc_world_def)

section \<open>Buckets: Find\<close>

text \<open>
  C4. On a well-formed bucket with nodes \<open>xs\<close>: when no node has the image identifier, \<^verbatim>\<open>Find\<close>
  returns \<^verbatim>\<open>nil\<close> and the store is unchanged; when \<open>e\<close> is the first node in head-to-tail
  order that has it (\<open>xs = pre @ e # post\<close>, no match in \<open>pre\<close>), \<^verbatim>\<open>Find\<close> returns \<open>e\<close>, the bucket
  is well-formed with the nodes \<open>pre @ post\<close> (the others, in their order), the three link
  fields of \<open>e\<close> are \<^verbatim>\<open>nil\<close>, the population count is one less and no attribute changed.
\<close>

theorem Find_pops_first_match:
  assumes "bucket w l xs"
  shows "((\<forall>x \<in> set xs. ImageId (Attrs (heap w x)) \<noteq> imageId) \<longrightarrow>
            Find w l imageId = ret (w, None))
       \<and> (xs = pre @ e # post \<and> (\<forall>x \<in> set pre. ImageId (Attrs (heap w x)) \<noteq> imageId)
            \<and> ImageId (Attrs (heap w e)) = imageId \<longrightarrow>
            (\<exists>w'. Find w l imageId = ret (w', Some e)
               \<and> bucket w' l (pre @ post)
               \<and> next_i (heap w' e) = None \<and> prev_i (heap w' e) = None
               \<and> list_i (heap w' e) = None
               \<and> Len w' l = Len w l - 1
               \<and> (\<forall>a. Attrs (heap w' a) = Attrs (heap w a))))"
proof (intro conjI impI)
  assume miss: "\<forall>x \<in> set xs. ImageId (Attrs (heap w x)) \<noteq> imageId"
  from assms obtain r where r: "root (lists w l) = Some r"
    and d: "dll (heap w) r xs r" and dist: "distinct (r # xs)"
    by (auto elim: bucketD)
  show "Find w l imageId = ret (w, None)"
    using Find_loop_miss [OF d _ miss] dist r by (simp add: Find_def)
next
  assume hit: "xs = pre @ e # post \<and> (\<forall>x \<in> set pre. ImageId (Attrs (heap w x)) \<noteq> imageId)
            \<and> ImageId (Attrs (heap w e)) = imageId"
  from assms hit have b: "bucket w l (pre @ e # post)" by simp
  then obtain r where r: "root (lists w l) = Some r"
    and d: "dll (heap w) r (pre @ e # post) r" and dist: "distinct (r # pre @ e # post)"
    by (auto elim: bucketD)
  have loop: "Find_loop w l r (next_i (heap w r)) imageId =
      bnd (Remove w l e) (\<lambda>(w', e). ret (w', Some e))"
    using hit dist by (intro Find_loop_hit [OF d]) auto
  from Remove_bucket [OF b] obtain w' where
    rm: "Remove w l e = ret (w', e)" and b': "bucket w' l (pre @ post)"
    and cl: "next_i (heap w' e) = None" "prev_i (heap w' e) = None" "list_i (heap w' e) = None"
    and sz: "size_l (lists w' l) = size_l (lists w l) - 1"
    and at: "\<forall>a. Attrs (heap w' a) = Attrs (heap w a) \<and> Disk (heap w' a) = Disk (heap w a)"
    by blast
  have "Find w l imageId = ret (w', Some e)"
    using r loop rm by (simp add: Find_def)
  with b' cl sz at show "\<exists>w'. Find w l imageId = ret (w', Some e)
               \<and> bucket w' l (pre @ post)
               \<and> next_i (heap w' e) = None \<and> prev_i (heap w' e) = None
               \<and> list_i (heap w' e) = None
               \<and> Len w' l = Len w l - 1
               \<and> (\<forall>a. Attrs (heap w' a) = Attrs (heap w a))"
    by (auto simp: Len_def)
qed

theorem Find_pops_first_match_witness:
  "bucket abc_world 1 [3, 4, 5]
   \<and> Find abc_world 1 ''img-9'' = ret (abc_world, None)
   \<and> (\<exists>w'. Find abc_world 1 ''img-2'' = ret (w', Some 4)
         \<and> bucket w' 1 [3, 5] \<and> Len w' 1 = 2
         \<and> next_i (heap w' 4) = None \<and> prev_i (heap w' 4) = None \<and> list_i (heap w' 4) = None)"
proof -
  have len: "Len abc_world 1 = 3" by (simp add: Len_def abc_world_def)
  have img: "\<forall>x \<in> set [3, 4, 5]. ImageId (Attrs (heap abc_world x)) \<noteq> ''img-9''"
    "\<forall>x \<in> set [3]. ImageId (Attrs (heap abc_world x)) \<noteq> ''img-2''"
    "ImageId (Attrs (heap abc_world 4)) = ''img-2''"
    by (simp_all add: abc_world_def)
  show ?thesis
    using Find_pops_first_match [OF abc_bucket, of "''img-9''"]
      Find_pops_first_match [OF abc_bucket, of "''img-2''" "[3]" 4 "[5]"] abc_bucket len img
    by auto
qed

section \<open>Buckets: Push\<close>

text \<open>
  C5. On a well-formed bucket with nodes \<open>xs\<close> and an instance \<open>e\<close> that is not the bucket's
  sentinel: when some node carries the instance identifier of \<open>e\<close>, \<^verbatim>\<open>Push\<close> returns \<^verbatim>\<open>nil\<close> and
  the store is unchanged; otherwise it returns \<open>e\<close>, the bucket is well-formed with the nodes
  \<open>xs @ [e]\<close> (\<open>e\<close> at the tail), the \<^verbatim>\<open>list\<close> field of \<open>e\<close> points to the bucket and the
  population count is one more.
\<close>

theorem Push_guard_and_tail:
  assumes "bucket w l xs" and "Some e \<noteq> root (lists w l)"
  shows "((\<exists>x \<in> set xs. InstanceId (Attrs (heap w x)) = InstanceId (Attrs (heap w e))) \<longrightarrow>
            Push w l e = ret (w, None))
       \<and> ((\<forall>x \<in> set xs. InstanceId (Attrs (heap w x)) \<noteq> InstanceId (Attrs (heap w e))) \<longrightarrow>
            (\<exists>w'. Push w l e = ret (w', Some e)
               \<and> bucket w' l (xs @ [e])
               \<and> list_i (heap w' e) = Some l
               \<and> Len w' l = Len w l + 1
               \<and> (\<forall>a. Attrs (heap w' a) = Attrs (heap w a))))"
proof (intro conjI impI)
  assume "\<exists>x \<in> set xs. InstanceId (Attrs (heap w x)) = InstanceId (Attrs (heap w e))"
  then show "Push w l e = ret (w, None)"
    by (rule Push_bucket_dup [OF assms(1)])
next
  assume "\<forall>x \<in> set xs. InstanceId (Attrs (heap w x)) \<noteq> InstanceId (Attrs (heap w e))"
  from Push_bucket_new [OF assms this] obtain w' where
    run: "Push w l e = ret (w', Some e)" and b: "bucket w' l (xs @ [e])"
    and sz: "size_l (lists w' l) = size_l (lists w l) + 1"
    and at: "\<forall>a. Attrs (heap w' a) = Attrs (heap w a) \<and> Disk (heap w' a) = Disk (heap w a)"
    by blast
  from b have "list_i (heap w' e) = Some l"
    by (auto elim: bucketD)
  with run b sz at show "\<exists>w'. Push w l e = ret (w', Some e)
               \<and> bucket w' l (xs @ [e])
               \<and> list_i (heap w' e) = Some l
               \<and> Len w' l = Len w l + 1
               \<and> (\<forall>a. Attrs (heap w' a) = Attrs (heap w a))"
    by (auto simp: Len_def)
qed

theorem Push_guard_and_tail_witness:
  "bucket abc_world 1 [3, 4, 5]
   \<and> Push abc_world 1 7 = ret (abc_world, None)
   \<and> (\<exists>w'. Push abc_world 1 6 = ret (w', Some 6)
         \<and> bucket w' 1 [3, 4, 5, 6] \<and> list_i (heap w' 6) = Some 1 \<and> Len w' 1 = 4)"
proof -
  have len: "Len abc_world 1 = 3" by (simp add: Len_def abc_world_def)
  have rt: "Some 7 \<noteq> root (lists abc_world 1)" "Some 6 \<noteq> root (lists abc_world 1)"
    by (simp_all add: abc_world_def)
  have ids: "\<exists>x \<in> set [3, 4, 5]. InstanceId (Attrs (heap abc_world x)) =
                InstanceId (Attrs (heap abc_world 7))"
    "\<forall>x \<in> set [3, 4, 5]. InstanceId (Attrs (heap abc_world x)) \<noteq>
                InstanceId (Attrs (heap abc_world 6))"
    by (simp_all add: abc_world_def zero_Instance_def)
  show ?thesis
    using Push_guard_and_tail [OF abc_bucket rt(1)] Push_guard_and_tail [OF abc_bucket rt(2)]
      abc_bucket len ids
    by auto
qed

section \<open>Cluster: GetInstance\<close>

lemma bucket_trace [simp]: "bucket (w\<lparr>trace := t\<rparr>) l xs = bucket w l xs"
  by (simp add: bucket_def split: option.splits)

lemma Find_bucket_hit:
  assumes b: "bucket w l (pre @ e # post)"
    and miss: "\<forall>x \<in> set pre. ImageId (Attrs (heap w x)) \<noteq> imageId"
    and hit: "ImageId (Attrs (heap w e)) = imageId"
  shows "Find w l imageId = bnd (Remove w l e) (\<lambda>(w', e). ret (w', Some e))"
proof -
  from b obtain r where r: "root (lists w l) = Some r"
    and d: "dll (heap w) r (pre @ e # post) r" and dist: "distinct (r # pre @ e # post)"
    by (auto elim: bucketD)
  have "Find_loop w l r (next_i (heap w r)) imageId =
      bnd (Remove w l e) (\<lambda>(w', e). ret (w', Some e))"
    using miss hit dist by (intro Find_loop_hit [OF d]) auto
  then show ?thesis using r by (simp add: Find_def)
qed

text \<open>
  C2. The available bucket is well-formed with nodes \<open>pre @ e # post\<close>, no two of them with
  the same instance identifier (what the duplicate guard of \<^verbatim>\<open>Push\<close> maintains), and \<open>e\<close> is the
  first node with the requested image. When the provider refuses the reservation tag,
  \<^verbatim>\<open>GetInstance\<close> returns \<^verbatim>\<open>nil\<close>, the cluster (its \<open>used\<close> map included) is unchanged, \<open>e\<close> is
  back in the bucket, at the tail, and the population count is what it was. When the tag
  is set, \<^verbatim>\<open>GetInstance\<close> returns \<open>e\<close>, \<open>used\<close> maps the identifier of \<open>e\<close> to \<open>e\<close>, and \<open>e\<close> is in
  no list. In both cases exactly one provider call is made.
\<close>

theorem GetInstance_reserves_or_undoes:
  assumes b: "bucket w (avavilable c) (pre @ e # post)"
    and ids: "distinct (map (\<lambda>x. InstanceId (Attrs (heap w x))) (pre @ e # post))"
    and miss: "\<forall>x \<in> set pre. ImageId (Attrs (heap w x)) \<noteq> imageId"
    and hit: "ImageId (Attrs (heap w e)) = imageId"
  shows "(err (P (trace w) (EcsAddTags (InstanceId (Attrs (heap w e))))) \<noteq> None \<longrightarrow>
           (\<exists>w'. GetInstance P w c imageId = ret (w', c, None)
              \<and> bucket w' (avavilable c) (pre @ post @ [e])
              \<and> Len w' (avavilable c) = Len w (avavilable c)
              \<and> trace w' = trace w @ [EcsAddTags (InstanceId (Attrs (heap w e)))]))
       \<and> (err (P (trace w) (EcsAddTags (InstanceId (Attrs (heap w e))))) = None \<longrightarrow>
           (\<exists>w'. GetInstance P w c imageId =
                   ret (w', c\<lparr>used := (used c)(InstanceId (Attrs (heap w e)) \<mapsto> e)\<rparr>, Some e)
              \<and> bucket w' (avavilable c) (pre @ post)
              \<and> list_i (heap w' e) = None
              \<and> trace w' = trace w @ [EcsAddTags (InstanceId (Attrs (heap w e)))]))"
proof -
  define l where "l = avavilable c"
  define tag where "tag = EcsAddTags (InstanceId (Attrs (heap w e)))"
  from b have b0: "bucket w l (pre @ e # post)" by (simp add: l_def)
  from Remove_bucket [OF b0] obtain w1 where
    rm: "Remove w l e = ret (w1, e)" and b1: "bucket w1 l (pre @ post)"
    and cl: "list_i (heap w1 e) = None"
    and sz1: "size_l (lists w1 l) = size_l (lists w l) - 1"
    and at1: "\<forall>a. Attrs (heap w1 a) = Attrs (heap w a) \<and> Disk (heap w1 a) = Disk (heap w a)"
    and rt1: "root (lists w1 l) = root (lists w l)"
    and tr1: "trace w1 = trace w"
    by blast
  have find: "Find w l imageId = ret (w1, Some e)"
    using Find_bucket_hit [OF b0 miss hit] rm by simp
  define w2 where "w2 = w1\<lparr>trace := trace w @ [tag]\<rparr>"
  have tagc: "SetUsedTag P w1 e = (w2, err (P (trace w) tag))"
    using at1 tr1 by (simp add: SetUsedTag_def do_call_def w2_def tag_def)
  have b2: "bucket w2 l (pre @ post)" using b1 by (simp add: w2_def)
  show ?thesis
  proof (intro conjI impI)
    assume "err (P (trace w) (EcsAddTags (InstanceId (Attrs (heap w e))))) \<noteq> None"
    then obtain er where er: "err (P (trace w) tag) = Some er" by (auto simp: tag_def)
    from b0 obtain r where r: "root (lists w l) = Some r" and dist: "distinct (r # pre @ e # post)"
      by (auto elim: bucketD)
    have ne: "Some e \<noteq> root (lists w2 l)"
      using r dist rt1 by (auto simp: w2_def)
    have nodup: "\<forall>x \<in> set (pre @ post). InstanceId (Attrs (heap w2 x)) \<noteq> InstanceId (Attrs (heap w2 e))"
      using ids at1 by (auto simp: w2_def image_def)
    from Push_bucket_new [OF b2 ne nodup] obtain w3 where
      push: "Push w2 l e = ret (w3, Some e)" and b3: "bucket w3 l ((pre @ post) @ [e])"
      and sz3: "size_l (lists w3 l) = size_l (lists w2 l) + 1"
      and tr3: "trace w3 = trace w2"
      by blast
    have "GetInstance P w c imageId = ret (w3, c, None)"
      using find tagc er push by (simp add: GetInstance_def l_def [symmetric])
    moreover have "Len w3 l = Len w l"
      using sz3 sz1 by (simp add: Len_def w2_def)
    moreover have "trace w3 = trace w @ [tag]"
      using tr3 by (simp add: w2_def)
    ultimately show "\<exists>w'. GetInstance P w c imageId = ret (w', c, None)
              \<and> bucket w' (avavilable c) (pre @ post @ [e])
              \<and> Len w' (avavilable c) = Len w (avavilable c)
              \<and> trace w' = trace w @ [EcsAddTags (InstanceId (Attrs (heap w e)))]"
      using b3 by (auto simp: l_def tag_def)
  next
    assume ok: "err (P (trace w) (EcsAddTags (InstanceId (Attrs (heap w e))))) = None"
    have "GetInstance P w c imageId =
        ret (w2, c\<lparr>used := (used c)(InstanceId (Attrs (heap w e)) \<mapsto> e)\<rparr>, Some e)"
      using find tagc ok at1 by (simp add: GetInstance_def l_def [symmetric] tag_def w2_def)
    moreover have "list_i (heap w2 e) = None" using cl by (simp add: w2_def)
    moreover have "trace w2 = trace w @ [tag]" by (simp add: w2_def)
    ultimately show "\<exists>w'. GetInstance P w c imageId =
                   ret (w', c\<lparr>used := (used c)(InstanceId (Attrs (heap w e)) \<mapsto> e)\<rparr>, Some e)
              \<and> bucket w' (avavilable c) (pre @ post)
              \<and> list_i (heap w' e) = None
              \<and> trace w' = trace w @ [EcsAddTags (InstanceId (Attrs (heap w e)))]"
      using b2 by (auto simp: l_def tag_def)
  qed
qed

theorem GetInstance_reserves_or_undoes_witness:
  "bucket abc_world (avavilable abc_cluster) [3, 4, 5]
   \<and> (\<exists>w'. GetInstance tag_fails abc_world abc_cluster ''img-2'' = ret (w', abc_cluster, None)
         \<and> bucket w' (avavilable abc_cluster) [3, 5, 4]
         \<and> Len w' (avavilable abc_cluster) = 3 \<and> trace w' = [EcsAddTags ''B''])
   \<and> (\<exists>w'. GetInstance quiet_provider abc_world abc_cluster ''img-2'' =
               ret (w', abc_cluster\<lparr>used := [''B'' \<mapsto> 4]\<rparr>, Some 4)
         \<and> bucket w' (avavilable abc_cluster) [3, 5]
         \<and> list_i (heap w' 4) = None \<and> trace w' = [EcsAddTags ''B''])"
proof -
  have b: "bucket abc_world (avavilable abc_cluster) ([3] @ 4 # [5])"
    using abc_bucket by (simp add: abc_cluster_def)
  have ids: "distinct (map (\<lambda>x. InstanceId (Attrs (heap abc_world x))) ([3] @ 4 # [5]))"
    by (simp add: abc_world_def)
  have miss: "\<forall>x \<in> set [3]. ImageId (Attrs (heap abc_world x)) \<noteq> ''img-2''"
    by (simp add: abc_world_def)
  have hit: "ImageId (Attrs (heap abc_world 4)) = ''img-2''"
    by (simp add: abc_world_def)
  have facts: "InstanceId (Attrs (heap abc_world 4)) = ''B''" "trace abc_world = []"
    "Len abc_world (avavilable abc_cluster) = 3" "used abc_cluster = Map.empty"
    by (simp_all add: abc_world_def abc_cluster_def Len_def)
  have answers: "err (tag_fails [] (EcsAddTags ''B'')) \<noteq> None"
    "err (quiet_provider [] (EcsAddTags ''B'')) = None"
    by (simp_all add: tag_fails_def quiet_provider_def ok_response_def)
  show ?thesis
    using GetInstance_reserves_or_undoes [OF b ids miss hit, of tag_fails]
      GetInstance_reserves_or_undoes [OF b ids miss hit, of quiet_provider] b
    by (simp add: facts answers)
qed

section \<open>Cluster: the reconciliation pass on concrete inputs\<close>

text \<open>
  The continuation of a bind, the branches of a case and the body of a let are simplified
  only once the value they depend on is known.
\<close>

lemma bnd_weak_cong: "m = m' \<Longrightarrow> bnd m f = bnd m' f"
  by simp

lemma deref_weak_cong: "p = p' \<Longrightarrow> deref p f = deref p' f"
  by simp

lemmas run_defs = Let_def fun_upd_sort do_call_def page_loop_None page_loop_Some
  NewCluster_def NewInstanceList_def new_InstanceList_def new_Instance_def Init_def Lock_def
  Unlock_def RefreshDisks_def RefreshInstances_def reserve_step_def status_step_def place_def
  Push_def lazyInit_def Push_loop_None Push_loop_Some insert_l_def Remove_def Start_def
  zero_Instance_def zero_InstanceList_def ok_response_def upd_def updl_def

lemmas run_congs = bnd_weak_cong deref_weak_cong option.case_cong_weak prod.case_cong_weak
  let_weak_cong

text \<open>
  C1. The provider lists one instance, \<open>i-1\<close>, with a disk, in status Starting and carrying
  the reservation tag. \<^verbatim>\<open>NewCluster\<close> returns a cluster in which \<open>i-1\<close> is in the index, in the
  \<open>used\<close> map and, at the same time, the one node of the starting bucket: the reservation
  step puts the record into \<open>used\<close>, and the Starting branch of the status step pushes it
  without looking at \<open>used\<close>, which only the Running branch does.
\<close>

theorem NewCluster_tagged_starting_in_used_and_bucket:
  "\<exists>w' c'. NewCluster tagged_starting empty_world = ret (w', Some c', None)
     \<and> instances c' ''i-1'' = Some 3 \<and> used c' ''i-1'' = Some 3
     \<and> InstanceId (Attrs (heap w' 3)) = ''i-1''
     \<and> bucket w' (starting c') [3] \<and> list_i (heap w' 3) = Some (starting c')"
  by (simp add: run_defs empty_world_def tagged_starting_def bucket_def cong: run_congs)

text \<open>
  C3. The instance B is in the available bucket of a well-formed cluster. The provider
  lists B in the tag listing and reports it Stopping. After the pass B is in the index and
  in \<open>used\<close>, it has left the available bucket, and it is the one node of the stopping
  bucket: the reservation step did run first and removed it from its bucket, and the
  Stopping branch of the status step then pushed it again.
\<close>

theorem RefreshInstances_tagged_stopping_in_used_and_bucket:
  "bucket abc_world (avavilable abc_cluster) [3, 4, 5]
   \<and> (\<exists>w' c'. RefreshInstances tagged_stopping abc_world abc_cluster = ret (w', c', None)
         \<and> instances c' ''B'' = Some 4 \<and> used c' ''B'' = Some 4
         \<and> InstanceId (Attrs (heap w' 4)) = ''B''
         \<and> bucket w' (avavilable c') [3, 5]
         \<and> bucket w' (stopping c') [4] \<and> list_i (heap w' 4) = Some (stopping c'))"
  by (simp add: run_defs abc_world_def abc_cluster_def tagged_stopping_def bucket_def
      cong: run_congs)

section \<open>Cluster: instances without a disk\<close>




end
